theory Spec2Isabelle
  imports Main
begin

section \<open>The date-parsing patcher (fix-date-parsing.py)\<close>

text \<open>
  The script reads one file as text, splits it at line feeds, scans the lines for the first
  one that contains a fixed JavaScript statement, splices two lines in before it and
  overwrites it, joins the lines again and writes the file back. Every fault is caught and
  turned into a printed message and the result False.

  Text is a \<open>string\<close>. The three operations the script applies to text (splitting at the
  line feed, joining with it, and the substring test) give the same answer on the code
  points of a text and on its UTF-8 bytes, so a character here may be read as either.
\<close>

subsection \<open>Text operations of the Python runtime\<close>

definition LF :: char where
  "LF = CHR 0x0A"

definition CR :: char where
  "CR = CHR 0x0D"

text \<open>\<^verbatim>\<open>s.startswith(p)\<close>, with the prefix as first argument.\<close>

fun startswith :: "string \<Rightarrow> string \<Rightarrow> bool" where
  "startswith [] s = True"
| "startswith (p # ps) [] = False"
| "startswith (p # ps) (c # cs) = (p = c \<and> startswith ps cs)"

text \<open>\<^verbatim>\<open>sub in s\<close> on strings: \<open>sub\<close> occurs in \<open>s\<close> as a contiguous substring.\<close>

fun contains :: "string \<Rightarrow> string \<Rightarrow> bool" where
  "contains sub [] = (sub = [])"
| "contains sub (c # cs) = (startswith sub (c # cs) \<or> contains sub cs)"

text \<open>
  \<^verbatim>\<open>content.split('\n')\<close>: the pieces between line feeds, empty pieces kept, so the
  result has one element more than the text has line feeds and is never empty.
\<close>

fun split :: "string \<Rightarrow> string list" where
  "split [] = [[]]"
| "split (c # cs) =
     (if c = LF then [] # split cs
      else (c # hd (split cs)) # tl (split cs))"

text \<open>\<^verbatim>\<open>'\n'.join(lines)\<close>.\<close>

fun join :: "string list \<Rightarrow> string" where
  "join [] = []"
| "join [l] = l"
| "join (l # m # ls) = l @ LF # join (m # ls)"

text \<open>
  A file opened in text mode with the default \<^verbatim>\<open>newline=None\<close> is read with universal
  newlines: each of \<^verbatim>\<open>\r\n\<close>, \<^verbatim>\<open>\r\<close> and \<^verbatim>\<open>\n\<close> arrives as \<^verbatim>\<open>\n\<close>.
\<close>

fun universal_newlines :: "string \<Rightarrow> string" where
  "universal_newlines [] = []"
| "universal_newlines [c] = (if c = CR then [LF] else [c])"
| "universal_newlines (c # d # cs) =
     (if c = CR then
        (if d = LF then LF # universal_newlines cs
         else LF # universal_newlines (d # cs))
      else c # universal_newlines (d # cs))"

subsection \<open>Faults and list operations\<close>

text \<open>
  The exceptions the run can meet. The two operating-system errors carry the path they were
  raised for, the decoding error the codec's description of the offending bytes.
\<close>

datatype fault =
    FileNotFoundError string
  | PermissionError string
  | UnicodeDecodeError string
  | IndexError

text \<open>
  \<^verbatim>\<open>repr(s)\<close> of a string whose characters are code points below 256, which is how a
  path appears in the text of an operating-system error. The string is quoted with single
  quotes, or with double quotes when it holds a single quote and no double quote; the quote
  character and the backslash are escaped with a backslash; tab, line feed and carriage
  return are written \<^verbatim>\<open>\t\<close>, \<^verbatim>\<open>\n\<close>, \<^verbatim>\<open>\r\<close>; every other character that
  is not printable is written \<^verbatim>\<open>\xhh\<close> with two lower-case hexadecimal digits. Below
  256 the printable characters are those from the space to the tilde and those from 161 on
  except the soft hyphen 173.
\<close>

definition hex_digit :: "nat \<Rightarrow> char" where
  "hex_digit n = ''0123456789abcdef'' ! n"

definition isprintable :: "char \<Rightarrow> bool" where
  "isprintable c =
     (let n = (of_char c :: nat)
      in (0x20 \<le> n \<and> n < 0x7F) \<or> (0xA1 \<le> n \<and> n \<noteq> 0xAD))"

definition repr_char :: "char \<Rightarrow> char \<Rightarrow> string" where
  "repr_char q c =
     (if c = q \<or> c = CHR 0x5C then [CHR 0x5C, c]
      else if c = CHR 0x09 then [CHR 0x5C, CHR ''t'']
      else if c = LF then [CHR 0x5C, CHR ''n'']
      else if c = CR then [CHR 0x5C, CHR ''r'']
      else if isprintable c then [c]
      else [CHR 0x5C, CHR ''x'', hex_digit (of_char c div 16), hex_digit (of_char c mod 16)])"

definition repr :: "string \<Rightarrow> string" where
  "repr s =
     (let q = (if CHR 0x27 \<in> set s \<and> CHR 0x22 \<notin> set s then CHR 0x22 else CHR 0x27)
      in q # concat (map (repr_char q) s) @ [q])"

text \<open>
  \<^verbatim>\<open>str(e)\<close>, as interpolated into the error message: for the two operating-system
  errors the error number, its description and the \<^verbatim>\<open>repr\<close> of the path.
\<close>

fun str_fault :: "fault \<Rightarrow> string" where
  "str_fault (FileNotFoundError p) = ''[Errno 2] No such file or directory: '' @ repr p"
| "str_fault (PermissionError p) = ''[Errno 13] Permission denied: '' @ repr p"
| "str_fault (UnicodeDecodeError m) = m"
| "str_fault IndexError = ''list assignment index out of range''"

text \<open>
  \<^verbatim>\<open>lines.insert(i, x)\<close> for \<open>i \<ge> 0\<close>: an index past the end appends, and nothing is
  raised (\<open>take\<close> and \<open>drop\<close> clamp the same way).
\<close>

definition list_insert :: "nat \<Rightarrow> 'a \<Rightarrow> 'a list \<Rightarrow> 'a list" where
  "list_insert i x xs = take i xs @ x # drop i xs"

text \<open>\<^verbatim>\<open>lines[i] = x\<close> for \<open>i \<ge> 0\<close>: raises IndexError at an index past the end.\<close>

definition list_setitem :: "nat \<Rightarrow> 'a \<Rightarrow> 'a list \<Rightarrow> fault + 'a list" where
  "list_setitem i x xs = (if i < length xs then Inr (xs[i := x]) else Inl IndexError)"

subsection \<open>The literals of the patch\<close>

text \<open>The statement searched for (source line 19).\<close>

definition match_literal :: string where
  "match_literal = ''const monthNum = months[month.toLowerCase()] || '01';''"

text \<open>
  The two lines inserted (source lines 21 and 22) and the line that replaces the match
  (line 24). Each starts with six spaces. The Python literal of the second writes its one
  backslash as \<^verbatim>\<open>\\\<close> and its two single quotes as \<^verbatim>\<open>\'\'\<close>.
\<close>

definition insertion_comment :: string where
  "insertion_comment = ''      // Clean up potential spacing in month names''"

definition insertion_cleanup :: string where
  "insertion_cleanup =
     ''      month = month.replace(/'' @ [CHR 0x5C] @ ''s+/g, '' @ [CHR 0x27, CHR 0x27]
       @ '').toLowerCase();''"

definition replacement_literal :: string where
  "replacement_literal = ''      const monthNum = months[month] || '01';''"

subsection \<open>The scan-and-patch loop\<close>

text \<open>
  \<^verbatim>\<open>for i, line in enumerate(lines)\<close> with its body (source lines 18 to 25): \<open>scan i lines\<close>
  is the loop about to look at index \<open>i\<close>. On the first line that contains the literal it
  performs the two inserts and the indexed assignment and leaves the loop
  (\<^verbatim>\<open>break\<close>); a fault of the assignment would leave the \<^verbatim>\<open>try\<close> block.
\<close>

function scan :: "nat \<Rightarrow> string list \<Rightarrow> fault + string list" where
  "scan i lines =
     (if i < length lines then
        (if contains match_literal (lines ! i) then
           list_setitem (i + 2) replacement_literal
             (list_insert (i + 1) insertion_cleanup
               (list_insert i insertion_comment lines))
         else scan (Suc i) lines)
      else Inr lines)"
  by pat_completeness auto
termination
  by (relation "measure (\<lambda>(i, lines). length lines - i)") auto

declare scan.simps [simp del]

subsection \<open>Files, standard output and the run\<close>

text \<open>
  A file has the two permissions the script depends on and its content: \<open>Text t\<close> when its
  bytes decode to the text \<open>t\<close> in the default encoding, \<open>Undecodable m\<close> when they do not
  and the codec describes the offending byte as \<open>m\<close>. The file system maps paths to
  files. The world also holds the lines printed so far and, in order, every
  \<^verbatim>\<open>open\<close> call made, so that one can say which calls a run attempts.
\<close>

datatype content = Text string | Undecodable string

record text_file =
  readable :: bool
  writable :: bool
  content_of :: content

datatype mode = ReadMode | WriteMode

record world =
  files :: "string \<rightharpoonup> text_file"
  stdout :: "string list"
  opens :: "(string \<times> mode) list"

text \<open>
  \<^verbatim>\<open>with open(file_path, 'r') as f: content = f.read()\<close>. A missing file, a file that may
  not be read and undecodable bytes raise.
\<close>

definition read_text :: "string \<Rightarrow> world \<Rightarrow> (fault + string) \<times> world" where
  "read_text path w =
     (let w' = w\<lparr>opens := opens w @ [(path, ReadMode)]\<rparr> in
      case files w path of
        None \<Rightarrow> (Inl (FileNotFoundError path), w')
      | Some f \<Rightarrow>
          if readable f then
            (case content_of f of
               Undecodable m \<Rightarrow> (Inl (UnicodeDecodeError m), w')
             | Text t \<Rightarrow> (Inr (universal_newlines t), w'))
          else (Inl (PermissionError path), w'))"

text \<open>
  \<^verbatim>\<open>with open(file_path, 'w') as f: f.write(s)\<close>. Opening for writing creates a missing
  file and truncates an existing one; a file that may not be written raises and stays as
  it was. On a POSIX system (the script's path is one) the line feeds are written as they
  are.
\<close>

definition write_text :: "string \<Rightarrow> string \<Rightarrow> world \<Rightarrow> (fault + unit) \<times> world" where
  "write_text path s w =
     (let w' = w\<lparr>opens := opens w @ [(path, WriteMode)]\<rparr> in
      case files w path of
        None \<Rightarrow>
          (Inr (), w'\<lparr>files := (files w)(path \<mapsto>
             \<lparr>readable = True, writable = True, content_of = Text s\<rparr>)\<rparr>)
      | Some f \<Rightarrow>
          if writable f then
            (Inr (), w'\<lparr>files := (files w)(path \<mapsto> f\<lparr>content_of := Text s\<rparr>)\<rparr>)
          else (Inl (PermissionError path), w'))"

definition print :: "string \<Rightarrow> world \<Rightarrow> world" where
  "print s w = w\<lparr>stdout := stdout w @ [s]\<rparr>"

text \<open>The \<^verbatim>\<open>except Exception as e\<close> branch (source lines 34 to 36).\<close>

definition on_exception :: "fault \<Rightarrow> world \<Rightarrow> bool \<times> world" where
  "on_exception e w = (False, print (''Error updating file: '' @ str_fault e) w)"

text \<open>\<^verbatim>\<open>fix_date_parsing(file_path)\<close> (source lines 8 to 36).\<close>

definition fix_date_parsing :: "string \<Rightarrow> world \<Rightarrow> bool \<times> world" where
  "fix_date_parsing file_path w =
     (case read_text file_path w of
        (Inl e, w1) \<Rightarrow> on_exception e w1
      | (Inr content, w1) \<Rightarrow>
          (case scan 0 (split content) of
             Inl e \<Rightarrow> on_exception e w1
           | Inr lines \<Rightarrow>
               (case write_text file_path (join lines) w1 of
                  (Inl e, w2) \<Rightarrow> on_exception e w2
                | (Inr u, w2) \<Rightarrow>
                    (True,
                     print ''Successfully updated the date parsing logic in merge-stamp.js''
                       w2))))"

text \<open>The main block (source lines 38 to 41): the fixed path, and the exit status.\<close>

definition target_path :: string where
  "target_path = ''/Users/admin/Scripts/pdf-merger/merge-stamp.js''"

definition main :: "world \<Rightarrow> int \<times> world" where
  "main w =
     (case fix_date_parsing target_path w of
        (success, w') \<Rightarrow> ((if success then 0 else 1), w'))"

section \<open>Properties of the text operations\<close>

lemma startswith_iff: "startswith p s \<longleftrightarrow> (\<exists>suf. s = p @ suf)"
  by (induction p s rule: startswith.induct) auto

lemma contains_iff: "contains sub s \<longleftrightarrow> (\<exists>pre suf. s = pre @ sub @ suf)"
proof (induction s)
  case Nil
  then show ?case by auto
next
  case (Cons c cs)
  show ?case
  proof
    assume "contains sub (c # cs)"
    then consider "startswith sub (c # cs)" | "contains sub cs" by auto
    then show "\<exists>pre suf. c # cs = pre @ sub @ suf"
    proof cases
      case 1
      then obtain suf where "c # cs = sub @ suf" by (auto simp: startswith_iff)
      then have "c # cs = [] @ sub @ suf" by simp
      then show ?thesis by blast
    next
      case 2
      then obtain pre suf where "cs = pre @ sub @ suf" using Cons.IH by blast
      then have "c # cs = (c # pre) @ sub @ suf" by simp
      then show ?thesis by blast
    qed
  next
    assume "\<exists>pre suf. c # cs = pre @ sub @ suf"
    then obtain pre suf where eq: "c # cs = pre @ sub @ suf" by blast
    show "contains sub (c # cs)"
    proof (cases pre)
      case Nil
      then have "startswith sub (c # cs)" using eq by (auto simp: startswith_iff)
      then show ?thesis by simp
    next
      case (Cons a pre')
      then have "cs = pre' @ sub @ suf" using eq by simp
      then have "contains sub cs" using Cons.IH by blast
      then show ?thesis by simp
    qed
  qed
qed

lemma split_not_Nil: "split s \<noteq> []"
  by (induction s) auto

lemma join_Cons: "ls \<noteq> [] \<Longrightarrow> join (l # ls) = l @ LF # join ls"
  by (cases ls) auto

lemma join_split: "join (split s) = s"
proof (induction s)
  case Nil
  then show ?case by simp
next
  case (Cons c cs)
  obtain l ls where sp: "split cs = l # ls" using split_not_Nil by (cases "split cs") auto
  show ?case
  proof (cases "c = LF")
    case True
    then show ?thesis using Cons by (simp add: join_Cons split_not_Nil)
  next
    case False
    then show ?thesis using Cons sp by (cases ls) auto
  qed
qed

lemma split_no_LF: "l \<in> set (split s) \<Longrightarrow> LF \<notin> set l"
proof (induction s arbitrary: l)
  case Nil
  then show ?case by simp
next
  case (Cons c cs)
  obtain m ms where sp: "split cs = m # ms" using split_not_Nil by (cases "split cs") auto
  show ?case
  proof (cases "c = LF")
    case True
    then show ?thesis using Cons by auto
  next
    case False
    then show ?thesis using Cons sp by auto
  qed
qed

lemma split_append_LF: "LF \<notin> set l \<Longrightarrow> split (l @ LF # s) = l # split s"
  by (induction l) auto

lemma split_line: "LF \<notin> set l \<Longrightarrow> split l = [l]"
  by (induction l) auto

lemma split_join: "ls \<noteq> [] \<Longrightarrow> \<forall>l\<in>set ls. LF \<notin> set l \<Longrightarrow> split (join ls) = ls"
proof (induction ls rule: join.induct)
  case 1
  then show ?case by simp
next
  case (2 l)
  then show ?case by (simp add: split_line)
next
  case (3 l m ls)
  then show ?case by (simp add: split_append_LF)
qed

lemma universal_newlines_no_CR: "CR \<notin> set (universal_newlines s)"
  by (induction s rule: universal_newlines.induct) (auto simp: CR_def LF_def)

lemma universal_newlines_id: "CR \<notin> set s \<Longrightarrow> universal_newlines s = s"
  by (induction s rule: universal_newlines.induct) auto

lemma scan_no_match:
  "\<forall>k. i \<le> k \<and> k < length ls \<longrightarrow> \<not> contains match_literal (ls ! k) \<Longrightarrow> scan i ls = Inr ls"
proof (induction i ls rule: scan.induct)
  case (1 i lines)
  show ?case
  proof (cases "i < length lines")
    case True
    then have nm: "\<not> contains match_literal (lines ! i)" using "1.prems" by simp
    have "scan (Suc i) lines = Inr lines" using "1.IH"[OF True nm] "1.prems" by simp
    then show ?thesis using True nm by (subst scan.simps) simp
  next
    case False
    then show ?thesis by (subst scan.simps) simp
  qed
qed

lemma patch_at:
  assumes "j < length ls"
  shows "list_setitem (j + 2) r (list_insert (j + 1) b (list_insert j a ls))
         = Inr (take j ls @ [a, b, r] @ drop (Suc j) ls)"
proof -
  have d: "drop j ls = ls ! j # drop (Suc j) ls"
    using assms by (simp add: Cons_nth_drop_Suc)
  have 1: "list_insert j a ls = take j ls @ a # drop j ls"
    by (simp add: list_insert_def)
  have 2: "list_insert (j + 1) b (take j ls @ a # drop j ls) = take j ls @ a # b # drop j ls"
    using assms by (simp add: list_insert_def min_def)
  have 3: "j + 2 < length (take j ls @ a # b # drop j ls)"
    using assms by simp
  have 4: "(take j ls @ a # b # drop j ls)[j + 2 := r] = take j ls @ a # b # r # drop (Suc j) ls"
    using assms by (simp add: d list_update_append)
  have 5: "list_setitem (j + 2) r (take j ls @ a # b # drop j ls)
        = Inr (take j ls @ a # b # r # drop (Suc j) ls)"
    unfolding list_setitem_def using 3 4 by simp
  show ?thesis unfolding 1 2 5 by simp
qed

lemma scan_first_match:
  assumes "i \<le> j" "j < length ls" "contains match_literal (ls ! j)"
    "\<forall>k. i \<le> k \<and> k < j \<longrightarrow> \<not> contains match_literal (ls ! k)"
  shows "scan i ls = Inr (take j ls @ [insertion_comment, insertion_cleanup, replacement_literal]
            @ drop (Suc j) ls)"
  using assms
proof (induction i ls rule: scan.induct)
  case (1 i lines)
  have lt: "i < length lines" using "1.prems" by simp
  show ?case
  proof (cases "contains match_literal (lines ! i)")
    case True
    have "i = j"
    proof (rule ccontr)
      assume "i \<noteq> j"
      then have "i < j" using "1.prems"(1) by simp
      then have "\<not> contains match_literal (lines ! i)" using "1.prems"(4) by simp
      then show False using True by simp
    qed
    then show ?thesis using True lt patch_at[OF lt] by (subst scan.simps) simp
  next
    case False
    then have "i \<noteq> j" using "1.prems" by auto
    then have "Suc i \<le> j" using "1.prems" by simp
    then have "scan (Suc i) lines = Inr (take j lines @ [insertion_comment, insertion_cleanup, replacement_literal]
            @ drop (Suc j) lines)" using "1.IH"[OF lt False] "1.prems" by simp
    then show ?thesis using False lt by (subst scan.simps) simp
  qed
qed

lemma contains_self: "contains s s"
  unfolding contains_iff by (rule exI[of _ "[]"], rule exI[of _ "[]"]) simp

lemma literals_unmatched:
  "\<not> contains match_literal insertion_comment"
  "\<not> contains match_literal insertion_cleanup"
  "\<not> contains match_literal replacement_literal"
  by (simp_all add: match_literal_def insertion_comment_def insertion_cleanup_def
      replacement_literal_def)

lemma scan_returns: "\<exists>out. scan i ls = Inr out"
proof (induction i ls rule: scan.induct)
  case (1 i lines)
  show ?case
  proof (cases "i < length lines")
    case False
    then show ?thesis by (subst scan.simps) simp
  next
    case lt: True
    show ?thesis
    proof (cases "contains match_literal (lines ! i)")
      case True
      then show ?thesis using lt patch_at[OF lt] by (subst scan.simps) simp
    next
      case False
      then show ?thesis using lt "1.IH"[OF lt False] by (subst scan.simps) simp
    qed
  qed
qed

lemma first_match_cases:
  obtains (none) "\<forall>k<length ls. \<not> contains match_literal (ls ! k)"
  | (first) j where "j < length ls" "contains match_literal (ls ! j)"
      "\<forall>k<j. \<not> contains match_literal (ls ! k)"
proof (cases "\<exists>k<length ls. contains match_literal (ls ! k)")
  case False
  then show ?thesis using none by blast
next
  case True
  define P where "P k \<longleftrightarrow> k < length ls \<and> contains match_literal (ls ! k)" for k
  have ex: "\<exists>k. P k" using True by (auto simp: P_def)
  define j where "j = (LEAST k. P k)"
  have Pj: "P j" unfolding j_def using ex by (auto intro: LeastI)
  have least: "\<not> P k" if "k < j" for k using that not_less_Least unfolding j_def by blast
  have "\<forall>k<j. \<not> contains match_literal (ls ! k)"
  proof (intro allI impI)
    fix k assume "k < j"
    then have "\<not> P k" and "k < length ls" using least Pj by (auto simp: P_def)
    then show "\<not> contains match_literal (ls ! k)" by (simp add: P_def)
  qed
  then show ?thesis using first[of j] Pj by (simp add: P_def)
qed

subsection \<open>The run on each kind of file\<close>

lemma fix_date_parsing_missing:
  assumes "files w p = None"
  shows "fix_date_parsing p w
         = on_exception (FileNotFoundError p) (w\<lparr>opens := opens w @ [(p, ReadMode)]\<rparr>)"
  using assms by (simp add: fix_date_parsing_def read_text_def Let_def)

lemma fix_date_parsing_unreadable:
  assumes "files w p = Some f" "\<not> readable f"
  shows "fix_date_parsing p w
         = on_exception (PermissionError p) (w\<lparr>opens := opens w @ [(p, ReadMode)]\<rparr>)"
  using assms by (simp add: fix_date_parsing_def read_text_def Let_def)

lemma fix_date_parsing_undecodable:
  assumes "files w p = Some f" "readable f" "content_of f = Undecodable m"
  shows "fix_date_parsing p w
         = on_exception (UnicodeDecodeError m) (w\<lparr>opens := opens w @ [(p, ReadMode)]\<rparr>)"
  using assms by (simp add: fix_date_parsing_def read_text_def Let_def)

lemma fix_date_parsing_unwritable:
  assumes "files w p = Some f" "readable f" "content_of f = Text t" "\<not> writable f"
  shows "fix_date_parsing p w
         = on_exception (PermissionError p)
             (w\<lparr>opens := opens w @ [(p, ReadMode), (p, WriteMode)]\<rparr>)"
proof -
  obtain ls where "scan 0 (split (universal_newlines t)) = Inr ls"
    using scan_returns by blast
  then show ?thesis
    using assms by (simp add: fix_date_parsing_def read_text_def write_text_def Let_def)
qed

lemma on_exception_parts:
  "fst (on_exception e w) = False" "files (snd (on_exception e w)) = files w"
  "stdout (snd (on_exception e w)) = stdout w @ [''Error updating file: '' @ str_fault e]"
  "opens (snd (on_exception e w)) = opens w"
  by (simp_all add: on_exception_def print_def)

lemma fix_date_parsing_ok:
  assumes "files w p = Some f" "readable f" "writable f" "content_of f = Text t"
    and "scan 0 (split (universal_newlines t)) = Inr ls"
  shows "fst (fix_date_parsing p w) = True"
    and "files (snd (fix_date_parsing p w)) = (files w)(p \<mapsto> f\<lparr>content_of := Text (join ls)\<rparr>)"
    and "stdout (snd (fix_date_parsing p w))
         = stdout w @ [''Successfully updated the date parsing logic in merge-stamp.js'']"
    and "opens (snd (fix_date_parsing p w)) = opens w @ [(p, ReadMode), (p, WriteMode)]"
  using assms
  by (simp_all add: fix_date_parsing_def read_text_def write_text_def print_def Let_def)

lemma set_join: "set (join ls) \<subseteq> insert LF (\<Union> (set ` set ls))"
  by (induction ls rule: join.induct) auto

lemma repr_plain:
  assumes "\<forall>c\<in>set s. isprintable c \<and> c \<noteq> CHR 0x27 \<and> c \<noteq> CHR 0x5C"
  shows "repr s = CHR 0x27 # s @ [CHR 0x27]"
proof -
  have p: "isprintable c \<Longrightarrow> c \<noteq> CHR 0x09 \<and> c \<noteq> LF \<and> c \<noteq> CR" for c
    by (auto simp: isprintable_def LF_def CR_def)
  have "concat (map (repr_char (CHR 0x27)) s) = s" using assms
    by (induction s) (auto simp: repr_char_def dest: p)
  moreover have "CHR 0x27 \<notin> set s" using assms by auto
  ultimately show ?thesis by (simp add: repr_def Let_def)
qed

lemma repr_target_path: "repr target_path = CHR 0x27 # target_path @ [CHR 0x27]"
  by (rule repr_plain) (simp add: target_path_def isprintable_def)

subsection \<open>Faults and the result\<close>

lemma scan_unmatched: "\<forall>l\<in>set ls. \<not> contains match_literal l \<Longrightarrow> scan 0 ls = Inr ls"
  by (rule scan_no_match) simp

lemma fix_date_parsing_read_fault:
  "read_text p w = (Inl e, w1) \<Longrightarrow> fix_date_parsing p w = on_exception e w1"
  by (simp add: fix_date_parsing_def)

lemma fix_date_parsing_write_fault:
  "read_text p w = (Inr content, w1) \<Longrightarrow> scan 0 (split content) = Inr lines \<Longrightarrow>
   write_text p (join lines) w1 = (Inl e, w2) \<Longrightarrow> fix_date_parsing p w = on_exception e w2"
  by (simp add: fix_date_parsing_def)

lemma fix_date_parsing_no_fault:
  "read_text p w = (Inr content, w1) \<Longrightarrow> scan 0 (split content) = Inr lines \<Longrightarrow>
   write_text p (join lines) w1 = (Inr u, w2) \<Longrightarrow>
   fix_date_parsing p w
   = (True, print ''Successfully updated the date parsing logic in merge-stamp.js'' w2)"
  by (simp add: fix_date_parsing_def)

lemma fix_date_parsing_true_iff:
  "fst (fix_date_parsing p w) \<longleftrightarrow>
     (\<exists>content w1 lines w2. read_text p w = (Inr content, w1) \<and>
        scan 0 (split content) = Inr lines \<and> write_text p (join lines) w1 = (Inr (), w2))"
proof
  assume "\<exists>content w1 lines w2. read_text p w = (Inr content, w1) \<and>
        scan 0 (split content) = Inr lines \<and> write_text p (join lines) w1 = (Inr (), w2)"
  then show "fst (fix_date_parsing p w)" using fix_date_parsing_no_fault by fastforce
next
  assume t: "fst (fix_date_parsing p w)"
  obtain r w1 where r: "read_text p w = (r, w1)" by (cases "read_text p w") auto
  show "\<exists>content w1 lines w2. read_text p w = (Inr content, w1) \<and>
        scan 0 (split content) = Inr lines \<and> write_text p (join lines) w1 = (Inr (), w2)"
  proof (cases r)
    case (Inl e)
    then show ?thesis using t r fix_date_parsing_read_fault[of p w e w1]
      by (simp add: on_exception_def)
  next
    case (Inr content)
    obtain lines where l: "scan 0 (split content) = Inr lines" using scan_returns by blast
    obtain x w2 where x: "write_text p (join lines) w1 = (x, w2)"
      by (cases "write_text p (join lines) w1") auto
    show ?thesis
    proof (cases x)
      case (Inl e)
      then show ?thesis using t r Inr l x fix_date_parsing_write_fault[of p w content w1 lines e w2]
        by (simp add: on_exception_def)
    next
      case (Inr u)
      then show ?thesis using r \<open>r = Inr content\<close> l x by auto
    qed
  qed
qed

lemma fix_date_parsing_true_files:
  "fst (fix_date_parsing p w) \<longleftrightarrow>
     (\<exists>f t. files w p = Some f \<and> readable f \<and> writable f \<and> content_of f = Text t)"
proof (cases "files w p")
  case None
  then show ?thesis by (simp add: fix_date_parsing_missing on_exception_parts)
next
  case (Some f)
  show ?thesis
  proof (cases "readable f")
    case False
    then show ?thesis using Some
      by (simp add: fix_date_parsing_unreadable on_exception_parts)
  next
    case rd: True
    show ?thesis
    proof (cases "content_of f")
      case (Undecodable m)
      then show ?thesis using Some rd
        by (simp add: fix_date_parsing_undecodable on_exception_parts)
    next
      case (Text t)
      obtain ls where ls: "scan 0 (split (universal_newlines t)) = Inr ls"
        using scan_returns by blast
      show ?thesis
      proof (cases "writable f")
        case False
        then show ?thesis using Some rd Text
          by (simp add: fix_date_parsing_unwritable on_exception_parts)
      next
        case True
        then show ?thesis using Some rd Text fix_date_parsing_ok(1)[OF Some rd True Text ls]
          by simp
      qed
    qed
  qed
qed

lemma fix_date_parsing_fault_files:
  assumes "\<not> fst (fix_date_parsing p w)"
  shows "files (snd (fix_date_parsing p w)) = files w"
proof (cases "files w p")
  case None
  then show ?thesis by (simp add: fix_date_parsing_missing on_exception_parts)
next
  case (Some f)
  show ?thesis
  proof (cases "readable f")
    case False
    then show ?thesis using Some
      by (simp add: fix_date_parsing_unreadable on_exception_parts)
  next
    case rd: True
    show ?thesis
    proof (cases "content_of f")
      case (Undecodable m)
      then show ?thesis using Some rd
        by (simp add: fix_date_parsing_undecodable on_exception_parts)
    next
      case (Text t)
      then have "\<not> writable f" using assms Some rd fix_date_parsing_true_files by blast
      then show ?thesis using Some rd Text
        by (simp add: fix_date_parsing_unwritable on_exception_parts)
    qed
  qed
qed

lemma main_status: "fst (main w) = (if fst (fix_date_parsing target_path w) then 0 else 1)"
  by (simp add: main_def split: prod.splits)

subsection \<open>Rewriting what was read\<close>

lemma set_line_join: "l \<in> set ls \<Longrightarrow> set l \<subseteq> set (join ls)"
  by (induction ls rule: join.induct) auto

lemma split_line_chars: "l \<in> set (split s) \<Longrightarrow> set l \<subseteq> set s"
  using set_line_join[of l "split s"] by (simp add: join_split)

lemma single_match_others:
  assumes "length (filter P ls) \<le> 1" "j < length ls" "P (ls ! j)"
  shows "\<forall>l\<in>set (take j ls) \<union> set (drop (Suc j) ls). \<not> P l"
proof -
  have "ls = take j ls @ ls ! j # drop (Suc j) ls" using assms(2) by (rule id_take_nth_drop)
  then have "filter P ls = filter P (take j ls) @ ls ! j # filter P (drop (Suc j) ls)"
    using assms(3) by (metis filter.simps(2) filter_append)
  then have "length (filter P (take j ls)) + length (filter P (drop (Suc j) ls)) = 0"
    using assms(1) by simp
  then have "filter P (take j ls) = []" "filter P (drop (Suc j) ls) = []" by simp_all
  then show ?thesis by (auto simp: filter_empty_conv)
qed

lemma fix_date_parsing_files_only:
  assumes "files w' = files w"
  shows "fst (fix_date_parsing p w') = fst (fix_date_parsing p w)"
    and "files (snd (fix_date_parsing p w')) = files (snd (fix_date_parsing p w))"
proof -
  show 1: "fst (fix_date_parsing p w') = fst (fix_date_parsing p w)"
    using assms by (simp add: fix_date_parsing_true_files)
  show "files (snd (fix_date_parsing p w')) = files (snd (fix_date_parsing p w))"
  proof (cases "fst (fix_date_parsing p w)")
    case False
    then show ?thesis using 1 assms by (simp add: fix_date_parsing_fault_files)
  next
    case True
    then obtain f t where f: "files w p = Some f" "readable f" "writable f" "content_of f = Text t"
      using fix_date_parsing_true_files by blast
    obtain ls where ls: "scan 0 (split (universal_newlines t)) = Inr ls"
      using scan_returns by blast
    have f': "files w' p = Some f" using f assms by simp
    show ?thesis
      using fix_date_parsing_ok(2)[OF f ls] fix_date_parsing_ok(2)[OF f' f(2,3,4) ls] assms
      by simp
  qed
qed

lemma rewrite_clean_lines:
  assumes f: "files w p = Some f" "readable f" "writable f" "content_of f = Text (join ls)"
    and ne: "ls \<noteq> []"
    and lf: "\<forall>l\<in>set ls. LF \<notin> set l" and cr: "\<forall>l\<in>set ls. CR \<notin> set l"
    and sc: "scan 0 ls = Inr out"
  shows "files (snd (fix_date_parsing p w)) = (files w)(p \<mapsto> f\<lparr>content_of := Text (join out)\<rparr>)"
proof -
  have "CR \<notin> set (join ls)" using set_join[of ls] cr by (auto simp: LF_def CR_def)
  then have "universal_newlines (join ls) = join ls" by (rule universal_newlines_id)
  moreover have "split (join ls) = ls" using ne lf by (rule split_join)
  ultimately have "scan 0 (split (universal_newlines (join ls))) = Inr out" using sc by simp
  then show ?thesis by (rule fix_date_parsing_ok(2)[OF f])
qed

lemma literals_no_break:
  "LF \<notin> set insertion_comment" "LF \<notin> set insertion_cleanup"
  "LF \<notin> set replacement_literal"
  "CR \<notin> set insertion_comment" "CR \<notin> set insertion_cleanup"
  "CR \<notin> set replacement_literal"
  by (simp_all add: LF_def CR_def insertion_comment_def insertion_cleanup_def
      replacement_literal_def)

lemma scan_result_clean:
  assumes "length (filter (contains match_literal) (split s)) \<le> 1" and "CR \<notin> set s"
  obtains out where "scan 0 (split s) = Inr out" "out \<noteq> []"
    "\<forall>l\<in>set out. LF \<notin> set l" "\<forall>l\<in>set out. CR \<notin> set l"
    "\<forall>l\<in>set out. \<not> contains match_literal l"
proof -
  let ?ls = "split s"
  have lf: "\<forall>l\<in>set ?ls. LF \<notin> set l" using split_no_LF by blast
  have cr: "\<forall>l\<in>set ?ls. CR \<notin> set l" using split_line_chars assms(2) by blast
  show ?thesis
  proof (cases ?ls rule: first_match_cases)
    case none
    then have nm: "\<forall>l\<in>set ?ls. \<not> contains match_literal l"
      by (auto simp: in_set_conv_nth)
    then have "scan 0 ?ls = Inr ?ls" by (rule scan_unmatched)
    then show ?thesis using that[of ?ls] split_not_Nil lf cr nm by blast
  next
    case (first j)
    define out where "out = take j ?ls @ [insertion_comment, insertion_cleanup,
        replacement_literal] @ drop (Suc j) ?ls"
    have sc: "scan 0 ?ls = Inr out" unfolding out_def
      using first by (intro scan_first_match) simp_all
    have others: "\<forall>l\<in>set (take j ?ls) \<union> set (drop (Suc j) ?ls). \<not> contains match_literal l"
      using assms(1) first(1,2) by (rule single_match_others)
    have sub: "set (take j ?ls) \<union> set (drop (Suc j) ?ls) \<subseteq> set ?ls"
      using set_take_subset set_drop_subset by (metis Un_least)
    have so: "set out = set (take j ?ls) \<union> set (drop (Suc j) ?ls)
        \<union> {insertion_comment, insertion_cleanup, replacement_literal}"
      unfolding out_def by auto
    have 1: "out \<noteq> []" unfolding out_def by simp
    have 2: "\<forall>l\<in>set out. LF \<notin> set l" unfolding so using lf sub literals_no_break by blast
    have 3: "\<forall>l\<in>set out. CR \<notin> set l" unfolding so using cr sub literals_no_break by blast
    have 4: "\<forall>l\<in>set out. \<not> contains match_literal l"
      unfolding so using others literals_unmatched by blast
    show ?thesis using that[OF sc 1 2 3 4] .
  qed
qed

section \<open>The scan-and-patch phase on line sequences\<close>

text \<open>
  Claim C3 gives, for the lines \<open>a\<close>, the searched statement and \<open>b\<close>, an output whose
  three new lines start at the first column. The run does not produce that output: the
  claimed list (with the one backslash and the two single quotes of the second line
  written as characters) differs from the result.
\<close>

theorem concrete_scenario_counterexample:
  "scan 0 [''a'', ''const monthNum = months[month.toLowerCase()] || '01';'', ''b'']
     \<noteq> Inr [''a'',
            ''// Clean up potential spacing in month names'',
            ''month = month.replace(/'' @ [CHR 0x5C] @ ''s+/g, '' @ [CHR 0x27, CHR 0x27]
              @ '').toLowerCase();'',
            ''const monthNum = months[month] || '01';'',
            ''b'']"
proof -
  let ?ls = "[''a'', match_literal, ''b'']"
  have "scan 0 ?ls = Inr (take 1 ?ls @ [insertion_comment, insertion_cleanup, replacement_literal]
          @ drop (Suc 1) ?ls)"
    by (rule scan_first_match) (simp_all add: match_literal_def)
  then show ?thesis
    by (simp add: match_literal_def insertion_comment_def)
qed

text \<open>
  Claim C3, amended: for the lines \<open>a\<close>, the searched statement and \<open>b\<close> the result is
  \<open>a\<close>, the comment line, the clean-up line and the new statement, each of the three
  indented by six spaces as the script's literals are, and \<open>b\<close>.
\<close>

theorem concrete_scenario:
  "scan 0 [''a'', ''const monthNum = months[month.toLowerCase()] || '01';'', ''b'']
     = Inr [''a'',
            ''      // Clean up potential spacing in month names'',
            ''      month = month.replace(/'' @ [CHR 0x5C] @ ''s+/g, '' @ [CHR 0x27, CHR 0x27]
              @ '').toLowerCase();'',
            ''      const monthNum = months[month] || '01';'',
            ''b'']"
proof -
  let ?ls = "[''a'', match_literal, ''b'']"
  have "scan 0 ?ls = Inr (take 1 ?ls @ [insertion_comment, insertion_cleanup, replacement_literal]
          @ drop (Suc 1) ?ls)"
    by (rule scan_first_match) (simp_all add: match_literal_def)
  then show ?thesis
    by (simp add: match_literal_def insertion_comment_def insertion_cleanup_def
        replacement_literal_def)
qed

text \<open>
  Claim C10: for every line sequence the scan-and-patch phase returns a list and raises no
  IndexError. At every index \<open>i\<close> of the list, after the two inserts at \<open>i\<close> and
  \<open>i + 1\<close> the index \<open>i + 2\<close> is within the lengthened list and holds the line that was
  at \<open>i\<close>, so the assignment succeeds, also when \<open>i\<close> is the last index.
\<close>

theorem overwrite_in_bounds:
  "(\<exists>out. scan 0 ls = Inr out) \<and> scan 0 ls \<noteq> Inl IndexError \<and>
   (\<forall>i<length ls.
      i + 2 < length (list_insert (i + 1) b (list_insert i a ls)) \<and>
      list_insert (i + 1) b (list_insert i a ls) ! (i + 2) = ls ! i \<and>
      list_setitem (i + 2) r (list_insert (i + 1) b (list_insert i a ls))
        = Inr (take i ls @ [a, b, r] @ drop (Suc i) ls))"
proof (intro conjI allI impI)
  show "\<exists>out. scan 0 ls = Inr out" by (rule scan_returns)
next
  obtain out where "scan 0 ls = Inr out" using scan_returns by blast
  then show "scan 0 ls \<noteq> Inl IndexError" by simp
next
  fix i assume lt: "i < length ls"
  have ins: "list_insert (i + 1) b (list_insert i a ls) = take i ls @ a # b # drop i ls"
    using lt by (simp add: list_insert_def min_def)
  show "i + 2 < length (list_insert (i + 1) b (list_insert i a ls))"
    unfolding ins using lt by simp
  show "list_insert (i + 1) b (list_insert i a ls) ! (i + 2) = ls ! i"
    unfolding ins using lt by (simp add: nth_append)
  show "list_setitem (i + 2) r (list_insert (i + 1) b (list_insert i a ls))
        = Inr (take i ls @ [a, b, r] @ drop (Suc i) ls)"
    by (rule patch_at[OF lt])
qed

text \<open>The bound at a list whose last line is the match.\<close>

theorem overwrite_in_bounds_witness:
  "scan 0 [''x'', match_literal]
     = Inr [''x'', insertion_comment, insertion_cleanup, replacement_literal] \<and>
   (1::nat) + 2 < length (list_insert (1 + 1) insertion_cleanup
        (list_insert 1 insertion_comment [''x'', match_literal])) \<and>
   list_insert (1 + 1) insertion_cleanup
        (list_insert 1 insertion_comment [''x'', match_literal]) ! (1 + 2) = match_literal"
proof -
  let ?ls = "[''x'', match_literal]"
  have lt: "(1::nat) < length ?ls" by simp
  have m: "contains match_literal match_literal" by (rule contains_self)
  have "scan 0 ?ls = Inr (take 1 ?ls @ [insertion_comment, insertion_cleanup, replacement_literal]
          @ drop (Suc 1) ?ls)"
    by (rule scan_first_match) (simp_all add: m, simp add: match_literal_def)
  moreover note overwrite_in_bounds[of ?ls insertion_cleanup insertion_comment replacement_literal]
  ultimately show ?thesis using lt by simp
qed

text \<open>
  Claim C1 says that in a file with exactly one line equal to the searched statement the
  patch is made at that line. It is not so when an earlier line contains the statement: in
  the two lines below only the second equals it, yet the patch is made at the first, which
  holds the statement after two spaces, and the second line is left as it was.
\<close>

theorem exact_match_counterexample:
  "[''  const monthNum = months[month.toLowerCase()] || '01';'', match_literal] ! 1
     = match_literal \<and>
   length (filter (\<lambda>l. l = match_literal)
     [''  const monthNum = months[month.toLowerCase()] || '01';'', match_literal]) = 1 \<and>
   scan 0 [''  const monthNum = months[month.toLowerCase()] || '01';'', match_literal]
     = Inr [insertion_comment, insertion_cleanup, replacement_literal, match_literal] \<and>
   scan 0 [''  const monthNum = months[month.toLowerCase()] || '01';'', match_literal]
     \<noteq> Inr [''  const monthNum = months[month.toLowerCase()] || '01';'',
             insertion_comment, insertion_cleanup, replacement_literal]"
proof -
  let ?l = "''  const monthNum = months[month.toLowerCase()] || '01';''"
  let ?ls = "[?l, match_literal]"
  have eq: "?l = ''  '' @ match_literal @ []" by (simp add: match_literal_def)
  have m: "contains match_literal ?l" unfolding contains_iff using eq by blast
  have ne: "?l \<noteq> match_literal" by (simp add: match_literal_def)
  have "scan 0 ?ls = Inr (take 0 ?ls @ [insertion_comment, insertion_cleanup, replacement_literal]
          @ drop (Suc 0) ?ls)"
    by (rule scan_first_match) (use m in simp_all)
  then have r: "scan 0 ?ls
      = Inr [insertion_comment, insertion_cleanup, replacement_literal, match_literal]"
    by simp
  have d: "insertion_comment \<noteq> ?l" by (simp add: insertion_comment_def)
  show ?thesis unfolding r using ne d by simp
qed

text \<open>
  Claim C1, amended: when exactly one line equals the searched statement and no line before
  it contains the statement, the result has the two inserted lines at that line's former
  index and the one after it, the replacement line at the next index, and every other line
  unchanged and in its order.
\<close>

theorem patch_exact_match:
  assumes "i < length ls" and "ls ! i = match_literal"
    and "\<forall>j<length ls. ls ! j = match_literal \<longrightarrow> j = i"
    and "\<forall>j<i. \<not> contains match_literal (ls ! j)"
  shows "scan 0 ls
         = Inr (take i ls @ [insertion_comment, insertion_cleanup, replacement_literal]
                @ drop (Suc i) ls)"
proof (rule scan_first_match)
  show "contains match_literal (ls ! i)" using assms(2) contains_self by simp
  show "\<forall>k. 0 \<le> k \<and> k < i \<longrightarrow> \<not> contains match_literal (ls ! k)" using assms(4) by simp
qed (use assms(1) in simp_all)

text \<open>The amended claim C1 at a three-line file whose middle line is the statement.\<close>

theorem patch_exact_match_witness:
  "scan 0 [''function f() {'', match_literal, ''}'']
     = Inr [''function f() {'', insertion_comment, insertion_cleanup, replacement_literal, ''}'']"
proof -
  let ?ls = "[''function f() {'', match_literal, ''}'']"
  have 1: "(1::nat) < length ?ls" by simp
  have 2: "?ls ! 1 = match_literal" by simp
  have 3: "\<forall>j<length ?ls. ?ls ! j = match_literal \<longrightarrow> j = 1"
    by (simp add: less_Suc_eq match_literal_def)
  have 4: "\<forall>j<1. \<not> contains match_literal (?ls ! j)"
    by (simp add: match_literal_def)
  show ?thesis using patch_exact_match[OF 1 2 3 4] by simp
qed

text \<open>
  Claim C2 says that a line which holds the searched statement together with other text,
  such as leading indentation, is not selected. The test of the script is
  \<^verbatim>\<open>literal in line\<close>, and the line below, the statement after six spaces, is not equal
  to the statement and is patched.
\<close>

theorem indented_line_counterexample:
  "''      const monthNum = months[month.toLowerCase()] || '01';'' \<noteq> match_literal \<and>
   scan 0 [''      const monthNum = months[month.toLowerCase()] || '01';'']
     = Inr [insertion_comment, insertion_cleanup, replacement_literal]"
proof -
  let ?l = "''      const monthNum = months[month.toLowerCase()] || '01';''"
  have eq: "?l = ''      '' @ match_literal @ []" by (simp add: match_literal_def)
  have m: "contains match_literal ?l" unfolding contains_iff using eq by blast
  have ne: "?l \<noteq> match_literal" by (simp add: match_literal_def)
  have "scan 0 [?l] = Inr (take 0 [?l] @ [insertion_comment, insertion_cleanup, replacement_literal]
          @ drop (Suc 0) [?l])"
    by (rule scan_first_match) (use m in simp_all)
  then show ?thesis using ne by simp
qed

text \<open>
  Claim C2, amended: the scan selects the first index whose line contains the searched
  statement as a contiguous substring, whatever text stands before and after it in the
  line; the characters are compared as they are, with no trimming and no case folding.
\<close>

theorem scan_selects_first_containing:
  assumes "i < length ls" and "ls ! i = pre @ match_literal @ suf"
    and "\<forall>j<i. \<not> (\<exists>p s. ls ! j = p @ match_literal @ s)"
  shows "scan 0 ls
         = Inr (take i ls @ [insertion_comment, insertion_cleanup, replacement_literal]
                @ drop (Suc i) ls)"
proof (rule scan_first_match)
  show "contains match_literal (ls ! i)" unfolding contains_iff using assms(2) by blast
  show "\<forall>k. 0 \<le> k \<and> k < i \<longrightarrow> \<not> contains match_literal (ls ! k)"
    unfolding contains_iff using assms(3) by simp
qed (use assms(1) in simp_all)

text \<open>
  The amended claim C2 at a file whose first line is the statement in capitals (not
  selected), whose second holds it between indentation and a comment (selected) and whose
  third equals it (left as it was).
\<close>

theorem scan_selects_first_containing_witness:
  "scan 0 [''CONST MONTHNUM = MONTHS[MONTH.TOLOWERCASE()] || '01';'',
           ''    '' @ match_literal @ '' // month'', match_literal]
     = Inr [''CONST MONTHNUM = MONTHS[MONTH.TOLOWERCASE()] || '01';'',
            insertion_comment, insertion_cleanup, replacement_literal, match_literal]"
proof -
  let ?u = "''CONST MONTHNUM = MONTHS[MONTH.TOLOWERCASE()] || '01';''"
  let ?ls = "[?u, ''    '' @ match_literal @ '' // month'', match_literal]"
  have 1: "(1::nat) < length ?ls" by simp
  have 2: "?ls ! 1 = ''    '' @ match_literal @ '' // month''" by simp
  have "\<not> contains match_literal ?u" by (simp add: match_literal_def)
  then have 3: "\<forall>j<1. \<not> (\<exists>p s. ?ls ! j = p @ match_literal @ s)"
    by (simp add: contains_iff)
  show ?thesis using scan_selects_first_containing[OF 1 2 3] by simp
qed

text \<open>
  Claim C5: a run modifies at most one patch site: the result is the input, or the input
  with the three lines in place of one line. When the searched statement occurs in the
  lines at two indices, the lower being the first occurrence, the patch is made there and
  every line after it, the later occurrence included, is unchanged, two places further on.
\<close>

theorem first_match_only:
  "(scan 0 ls = Inr ls \<or>
    (\<exists>i<length ls. scan 0 ls
       = Inr (take i ls @ [insertion_comment, insertion_cleanup, replacement_literal]
              @ drop (Suc i) ls))) \<and>
   (\<forall>i j. i < j \<and> j < length ls \<and> contains match_literal (ls ! i) \<and>
      contains match_literal (ls ! j) \<and> (\<forall>k<i. \<not> contains match_literal (ls ! k)) \<longrightarrow>
      (\<exists>out. scan 0 ls = Inr out \<and> length out = length ls + 2 \<and>
         take i out = take i ls \<and>
         out ! i = insertion_comment \<and> out ! (i + 1) = insertion_cleanup \<and>
         out ! (i + 2) = replacement_literal \<and>
         drop (i + 3) out = drop (Suc i) ls \<and>
         out ! (j + 2) = ls ! j))"
proof (intro conjI allI impI)
  show "scan 0 ls = Inr ls \<or>
    (\<exists>i<length ls. scan 0 ls
       = Inr (take i ls @ [insertion_comment, insertion_cleanup, replacement_literal]
              @ drop (Suc i) ls))"
  proof (cases ls rule: first_match_cases)
    case none
    then have "scan 0 ls = Inr ls" by (intro scan_no_match) simp
    then show ?thesis by simp
  next
    case (first j)
    then have "scan 0 ls = Inr (take j ls @ [insertion_comment, insertion_cleanup,
        replacement_literal] @ drop (Suc j) ls)"
      by (intro scan_first_match) simp_all
    then show ?thesis using first(1) by blast
  qed
next
  fix i j
  assume a: "i < j \<and> j < length ls \<and> contains match_literal (ls ! i) \<and>
      contains match_literal (ls ! j) \<and> (\<forall>k<i. \<not> contains match_literal (ls ! k))"
  define out where "out = take i ls @ [insertion_comment, insertion_cleanup,
        replacement_literal] @ drop (Suc i) ls"
  have lt: "i < length ls" using a by simp
  have s: "scan 0 ls = Inr out" unfolding out_def
    using a lt by (intro scan_first_match) simp_all
  have len: "length out = length ls + 2" unfolding out_def using lt by simp
  have tk: "take i out = take i ls" unfolding out_def using lt by simp
  have n0: "out ! i = insertion_comment" unfolding out_def using lt by (simp add: nth_append)
  have n1: "out ! (i + 1) = insertion_cleanup" unfolding out_def using lt
    by (simp add: nth_append)
  have n2: "out ! (i + 2) = replacement_literal" unfolding out_def using lt
    by (simp add: nth_append)
  have dr: "drop (i + 3) out = drop (Suc i) ls" unfolding out_def using lt by simp
  have "out ! (j + 2) = drop (i + 3) out ! (j - Suc i)"
    using a len by simp
  also have "\<dots> = ls ! j" unfolding dr using a by simp
  finally have nj: "out ! (j + 2) = ls ! j" .
  show "\<exists>out. scan 0 ls = Inr out \<and> length out = length ls + 2 \<and>
         take i out = take i ls \<and>
         out ! i = insertion_comment \<and> out ! (i + 1) = insertion_cleanup \<and>
         out ! (i + 2) = replacement_literal \<and>
         drop (i + 3) out = drop (Suc i) ls \<and>
         out ! (j + 2) = ls ! j"
    using s len tk n0 n1 n2 dr nj by blast
qed

text \<open>Claim C5 at a file that holds the statement in its first and its third line.\<close>

theorem first_match_only_witness:
  "\<exists>out. scan 0 [match_literal, ''x'', match_literal] = Inr out \<and> length out = 5 \<and>
     out ! 0 = insertion_comment \<and> out ! 1 = insertion_cleanup \<and>
     out ! 2 = replacement_literal \<and> drop 3 out = [''x'', match_literal] \<and>
     out ! 4 = match_literal"
proof -
  let ?ls = "[match_literal, ''x'', match_literal]"
  have a: "(0::nat) < 2 \<and> 2 < length ?ls \<and> contains match_literal (?ls ! 0) \<and>
      contains match_literal (?ls ! 2) \<and> (\<forall>k<0. \<not> contains match_literal (?ls ! k))"
    by (simp add: contains_self)
  from first_match_only[of ?ls] a
  obtain out where o: "scan 0 ?ls = Inr out" "length out = length ?ls + 2"
    "out ! 0 = insertion_comment" "out ! (0 + 1) = insertion_cleanup"
    "out ! (0 + 2) = replacement_literal" "drop (0 + 3) out = drop (Suc 0) ?ls"
    "out ! (2 + 2) = ?ls ! 2"
    by blast
  have "scan 0 ?ls = Inr out \<and> length out = 5 \<and>
     out ! 0 = insertion_comment \<and> out ! 1 = insertion_cleanup \<and>
     out ! 2 = replacement_literal \<and> drop 3 out = [''x'', match_literal] \<and>
     out ! 4 = match_literal"
    using o by (simp add: eval_nat_numeral)
  then show ?thesis by blast
qed

section \<open>The run on a file\<close>

text \<open>
  Claim C6: the run returns True exactly when the read, the scan and the write all complete
  without a fault, which is exactly when the file exists, may be read and written and
  decodes, whatever its lines are. A fault of the read or of the write is caught: the run
  prints \<open>Error updating file:\<close> followed by the fault's text and returns False. The exit
  status of the program is 0 when the run returns True and 1 when it returns False.
\<close>

theorem fix_date_parsing_result:
  "(fst (fix_date_parsing p w) \<longleftrightarrow>
      (\<exists>content w1 lines w2. read_text p w = (Inr content, w1) \<and>
         scan 0 (split content) = Inr lines \<and>
         write_text p (join lines) w1 = (Inr (), w2))) \<and>
   (fst (fix_date_parsing p w) \<longleftrightarrow>
      (\<exists>f t. files w p = Some f \<and> readable f \<and> writable f \<and> content_of f = Text t)) \<and>
   (\<forall>e w1. read_text p w = (Inl e, w1) \<longrightarrow>
      fix_date_parsing p w = (False, print (''Error updating file: '' @ str_fault e) w1)) \<and>
   (\<forall>content w1 lines e w2.
      read_text p w = (Inr content, w1) \<and> scan 0 (split content) = Inr lines \<and>
      write_text p (join lines) w1 = (Inl e, w2) \<longrightarrow>
      fix_date_parsing p w = (False, print (''Error updating file: '' @ str_fault e) w2)) \<and>
   fst (main w) = (if fst (fix_date_parsing target_path w) then 0 else 1)"
proof (intro conjI allI impI)
  show "fst (fix_date_parsing p w) \<longleftrightarrow>
      (\<exists>content w1 lines w2. read_text p w = (Inr content, w1) \<and>
         scan 0 (split content) = Inr lines \<and>
         write_text p (join lines) w1 = (Inr (), w2))"
    by (rule fix_date_parsing_true_iff)
  show "fst (fix_date_parsing p w) \<longleftrightarrow>
      (\<exists>f t. files w p = Some f \<and> readable f \<and> writable f \<and> content_of f = Text t)"
    by (rule fix_date_parsing_true_files)
  show "fst (main w) = (if fst (fix_date_parsing target_path w) then 0 else 1)"
    by (rule main_status)
next
  fix e w1 assume "read_text p w = (Inl e, w1)"
  then show "fix_date_parsing p w = (False, print (''Error updating file: '' @ str_fault e) w1)"
    by (simp add: fix_date_parsing_read_fault on_exception_def)
next
  fix content w1 lines e w2
  assume "read_text p w = (Inr content, w1) \<and> scan 0 (split content) = Inr lines \<and>
      write_text p (join lines) w1 = (Inl e, w2)"
  then show "fix_date_parsing p w = (False, print (''Error updating file: '' @ str_fault e) w2)"
    using fix_date_parsing_write_fault[of p w content w1 lines e w2]
    by (simp add: on_exception_def)
qed

text \<open>
  Claim C6 at a missing file (the read faults), at a file that may be read and not written
  (the write faults) and at a file that may be read and written (no fault).
\<close>

theorem fix_date_parsing_result_witness:
  "fix_date_parsing ''m.js'' \<lparr>files = Map.empty, stdout = [], opens = []\<rparr>
     = (False, \<lparr>files = Map.empty,
          stdout = [''Error updating file: '' @ str_fault (FileNotFoundError ''m.js'')],
          opens = [(''m.js'', ReadMode)]\<rparr>) \<and>
   fix_date_parsing ''m.js''
       \<lparr>files = [''m.js'' \<mapsto> \<lparr>readable = True, writable = False, content_of = Text ''x''\<rparr>],
        stdout = [], opens = []\<rparr>
     = (False,
        \<lparr>files = [''m.js'' \<mapsto> \<lparr>readable = True, writable = False, content_of = Text ''x''\<rparr>],
         stdout = [''Error updating file: '' @ str_fault (PermissionError ''m.js'')],
         opens = [(''m.js'', ReadMode), (''m.js'', WriteMode)]\<rparr>) \<and>
   fst (fix_date_parsing ''m.js''
       \<lparr>files = [''m.js'' \<mapsto> \<lparr>readable = True, writable = True, content_of = Text ''x''\<rparr>],
        stdout = [], opens = []\<rparr>) \<and>
   fst (main \<lparr>files = Map.empty, stdout = [], opens = []\<rparr>) = 1"
proof -
  let ?w0 = "\<lparr>files = Map.empty, stdout = [], opens = []\<rparr>"
  let ?w1 = "\<lparr>files = [''m.js'' \<mapsto> \<lparr>readable = True, writable = False, content_of = Text ''x''\<rparr>],
        stdout = [], opens = []\<rparr>"
  let ?w2 = "\<lparr>files = [''m.js'' \<mapsto> \<lparr>readable = True, writable = True, content_of = Text ''x''\<rparr>],
        stdout = [], opens = []\<rparr>"
  have r0: "read_text ''m.js'' ?w0
      = (Inl (FileNotFoundError ''m.js''), ?w0\<lparr>opens := [(''m.js'', ReadMode)]\<rparr>)"
    by (simp add: read_text_def)
  have a: "fix_date_parsing ''m.js'' ?w0
     = (False, print (''Error updating file: '' @ str_fault (FileNotFoundError ''m.js''))
         (?w0\<lparr>opens := [(''m.js'', ReadMode)]\<rparr>))"
    using fix_date_parsing_result[of "''m.js''" ?w0] r0 by blast
  have sp: "split ''x'' = [''x'']" by (simp add: LF_def)
  have sc: "scan 0 [''x''] = Inr [''x'']"
    by (rule scan_unmatched) (simp add: match_literal_def)
  have r1: "read_text ''m.js'' ?w1 = (Inr ''x'', ?w1\<lparr>opens := [(''m.js'', ReadMode)]\<rparr>)"
    by (simp add: read_text_def CR_def)
  have x1: "write_text ''m.js'' (join [''x'']) (?w1\<lparr>opens := [(''m.js'', ReadMode)]\<rparr>)
      = (Inl (PermissionError ''m.js''),
         ?w1\<lparr>opens := [(''m.js'', ReadMode), (''m.js'', WriteMode)]\<rparr>)"
    by (simp add: write_text_def)
  have b: "fix_date_parsing ''m.js'' ?w1
     = (False, print (''Error updating file: '' @ str_fault (PermissionError ''m.js''))
         (?w1\<lparr>opens := [(''m.js'', ReadMode), (''m.js'', WriteMode)]\<rparr>))"
    using fix_date_parsing_result[of "''m.js''" ?w1] r1 sp sc x1 by (metis (no_types, lifting))
  have "fst (fix_date_parsing ''m.js'' ?w2) \<longleftrightarrow>
      (\<exists>f t. files ?w2 ''m.js'' = Some f \<and> readable f \<and> writable f \<and> content_of f = Text t)"
    by (rule conjunct1[OF conjunct2[OF fix_date_parsing_result[of "''m.js''" ?w2]]])
  then have c: "fst (fix_date_parsing ''m.js'' ?w2)" by simp
  have "fst (fix_date_parsing target_path ?w0) \<longleftrightarrow>
      (\<exists>f t. files ?w0 target_path = Some f \<and> readable f \<and> writable f \<and> content_of f = Text t)"
    by (rule conjunct1[OF conjunct2[OF fix_date_parsing_result[of target_path ?w0]]])
  then have n: "\<not> fst (fix_date_parsing target_path ?w0)" by simp
  have "fst (main ?w0) = (if fst (fix_date_parsing target_path ?w0) then 0 else 1)"
    using fix_date_parsing_result[of target_path ?w0] by blast
  then have d: "fst (main ?w0) = 1" using n by simp
  show ?thesis using a b c d by (simp add: print_def)
qed

text \<open>
  Claim C7: at a path where no file exists, or where the file may not be read, the run
  returns False and the program exits with status 1; the file system is as it was, so no
  file has been created; and the only \<^verbatim>\<open>open\<close> call made is the one for reading, so
  the write is never attempted.
\<close>

theorem unreadable_path_fails:
  assumes "files w p = None \<or> (\<exists>f. files w p = Some f \<and> \<not> readable f)"
  shows "fst (fix_date_parsing p w) = False \<and>
         files (snd (fix_date_parsing p w)) = files w \<and>
         opens (snd (fix_date_parsing p w)) = opens w @ [(p, ReadMode)] \<and>
         (p = target_path \<longrightarrow> fst (main w) = 1)"
proof -
  have "\<exists>e. fix_date_parsing p w = on_exception e (w\<lparr>opens := opens w @ [(p, ReadMode)]\<rparr>)"
    using assms fix_date_parsing_missing fix_date_parsing_unreadable by blast
  then obtain e where e: "fix_date_parsing p w
      = on_exception e (w\<lparr>opens := opens w @ [(p, ReadMode)]\<rparr>)" by blast
  have 1: "fst (fix_date_parsing p w) = False" unfolding e by (simp add: on_exception_parts)
  have 2: "files (snd (fix_date_parsing p w)) = files w"
    unfolding e by (simp add: on_exception_parts)
  have 3: "opens (snd (fix_date_parsing p w)) = opens w @ [(p, ReadMode)]"
    unfolding e by (simp add: on_exception_parts)
  have 4: "p = target_path \<longrightarrow> fst (main w) = 1"
  proof
    assume "p = target_path"
    then show "fst (main w) = 1" using 1 by (simp add: main_status)
  qed
  show ?thesis using 1 2 3 4 by blast
qed

text \<open>Claim C7 at the script's path in an empty file system and at an unreadable file.\<close>

theorem unreadable_path_fails_witness:
  "fst (fix_date_parsing target_path \<lparr>files = Map.empty, stdout = [], opens = []\<rparr>) = False \<and>
   files (snd (fix_date_parsing target_path \<lparr>files = Map.empty, stdout = [], opens = []\<rparr>))
     target_path = None \<and>
   fst (main \<lparr>files = Map.empty, stdout = [], opens = []\<rparr>) = 1 \<and>
   fst (fix_date_parsing ''m.js''
     \<lparr>files = [''m.js'' \<mapsto> \<lparr>readable = False, writable = True, content_of = Text ''x''\<rparr>],
      stdout = [], opens = []\<rparr>) = False \<and>
   opens (snd (fix_date_parsing ''m.js''
     \<lparr>files = [''m.js'' \<mapsto> \<lparr>readable = False, writable = True, content_of = Text ''x''\<rparr>],
      stdout = [], opens = []\<rparr>)) = [(''m.js'', ReadMode)]"
proof -
  let ?w0 = "\<lparr>files = Map.empty, stdout = [], opens = []\<rparr>"
  let ?w1 = "\<lparr>files = [''m.js'' \<mapsto> \<lparr>readable = False, writable = True, content_of = Text ''x''\<rparr>],
      stdout = [], opens = []\<rparr>"
  have h0: "files ?w0 target_path = None \<or>
      (\<exists>f. files ?w0 target_path = Some f \<and> \<not> readable f)" by simp
  have h1: "files ?w1 ''m.js'' = None \<or> (\<exists>f. files ?w1 ''m.js'' = Some f \<and> \<not> readable f)"
    by simp
  show ?thesis
    using unreadable_path_fails[OF h0] unreadable_path_fails[OF h1] by simp
qed

text \<open>
  Claim C4 says that a file with no line equal to the searched statement is left with its
  content. The file below has one line, the statement after six spaces: no line equals the
  statement, and the run replaces the content by the three lines of the patch.
\<close>

theorem unmatched_file_counterexample:
  "filter (\<lambda>l. l = match_literal) (split (universal_newlines (''      '' @ match_literal))) = []
   \<and> files (snd (fix_date_parsing ''m.js''
       \<lparr>files = [''m.js'' \<mapsto> \<lparr>readable = True, writable = True,
                    content_of = Text (''      '' @ match_literal)\<rparr>],
        stdout = [], opens = []\<rparr>)) ''m.js''
     = Some \<lparr>readable = True, writable = True,
             content_of = Text (join [insertion_comment, insertion_cleanup,
               replacement_literal])\<rparr>
   \<and> join [insertion_comment, insertion_cleanup, replacement_literal]
       \<noteq> ''      '' @ match_literal"
proof -
  let ?t = "''      '' @ match_literal"
  let ?f = "\<lparr>readable = True, writable = True, content_of = Text ?t\<rparr>"
  let ?w = "\<lparr>files = [''m.js'' \<mapsto> ?f], stdout = [], opens = []\<rparr>"
  have nl: "LF \<notin> set ?t" "CR \<notin> set ?t" by (simp_all add: LF_def CR_def match_literal_def)
  have sp: "split (universal_newlines ?t) = [?t]"
    unfolding universal_newlines_id[OF nl(2)] by (rule split_line[OF nl(1)])
  have m: "contains match_literal ?t" unfolding contains_iff
    by (rule exI[of _ "''      ''"], rule exI[of _ "[]"]) simp
  have "scan 0 [?t] = Inr (take 0 [?t] @ [insertion_comment, insertion_cleanup,
      replacement_literal] @ drop (Suc 0) [?t])"
    by (rule scan_first_match) (use m in simp_all)
  then have sc: "scan 0 (split (universal_newlines ?t))
      = Inr [insertion_comment, insertion_cleanup, replacement_literal]"
    unfolding sp by simp
  have 1: "filter (\<lambda>l. l = match_literal) (split (universal_newlines ?t)) = []"
    unfolding sp by (simp add: match_literal_def)
  have "files (snd (fix_date_parsing ''m.js'' ?w))
      = (files ?w)(''m.js'' \<mapsto> ?f\<lparr>content_of := Text (join [insertion_comment,
          insertion_cleanup, replacement_literal])\<rparr>)"
    by (rule fix_date_parsing_ok(2)[OF _ _ _ _ sc]) simp_all
  then have 2: "files (snd (fix_date_parsing ''m.js'' ?w)) ''m.js''
      = Some \<lparr>readable = True, writable = True,
             content_of = Text (join [insertion_comment, insertion_cleanup,
               replacement_literal])\<rparr>"
    by simp
  have 3: "join [insertion_comment, insertion_cleanup, replacement_literal] \<noteq> ?t"
    by (simp add: insertion_comment_def match_literal_def)
  show ?thesis using 1 2 3 by blast
qed

text \<open>
  Claim C4, amended: when no line of a readable and writable file contains the searched
  statement, the run returns True and writes back the text it read, which is the content
  with its line endings normalised to the line feed; a content without carriage return is
  left identical.
\<close>

theorem unmatched_file_unchanged:
  assumes "files w p = Some f" and "readable f" and "writable f" and "content_of f = Text t"
    and "\<forall>l\<in>set (split (universal_newlines t)). \<not> contains match_literal l"
  shows "fst (fix_date_parsing p w) = True \<and>
         files (snd (fix_date_parsing p w))
           = (files w)(p \<mapsto> f\<lparr>content_of := Text (universal_newlines t)\<rparr>) \<and>
         (CR \<notin> set t \<longrightarrow> files (snd (fix_date_parsing p w)) = files w)"
proof -
  have sc: "scan 0 (split (universal_newlines t)) = Inr (split (universal_newlines t))"
    using assms(5) by (rule scan_unmatched)
  have 1: "fst (fix_date_parsing p w) = True"
    by (rule fix_date_parsing_ok(1)[OF assms(1-4) sc])
  have 2: "files (snd (fix_date_parsing p w))
           = (files w)(p \<mapsto> f\<lparr>content_of := Text (universal_newlines t)\<rparr>)"
    using fix_date_parsing_ok(2)[OF assms(1-4) sc] by (simp add: join_split)
  have 3: "CR \<notin> set t \<longrightarrow> files (snd (fix_date_parsing p w)) = files w"
  proof
    assume "CR \<notin> set t"
    then have "universal_newlines t = t" by (rule universal_newlines_id)
    then have "f\<lparr>content_of := Text (universal_newlines t)\<rparr> = f" using assms(4) by simp
    then show "files (snd (fix_date_parsing p w)) = files w"
      unfolding 2 using assms(1) by (simp add: map_upd_triv)
  qed
  show ?thesis using 1 2 3 by blast
qed

text \<open>
  The amended claim C4 at a file with one carriage return and line feed pair, which is
  written back with line feeds only, and at that result, which is written back identical.
\<close>

theorem unmatched_file_unchanged_witness:
  "fst (fix_date_parsing ''m.js''
       \<lparr>files = [''m.js'' \<mapsto> \<lparr>readable = True, writable = True,
                    content_of = Text [CHR ''a'', CR, LF, CHR ''b'', LF]\<rparr>],
        stdout = [], opens = []\<rparr>) = True \<and>
   files (snd (fix_date_parsing ''m.js''
       \<lparr>files = [''m.js'' \<mapsto> \<lparr>readable = True, writable = True,
                    content_of = Text [CHR ''a'', CR, LF, CHR ''b'', LF]\<rparr>],
        stdout = [], opens = []\<rparr>)) ''m.js''
     = Some \<lparr>readable = True, writable = True,
             content_of = Text [CHR ''a'', LF, CHR ''b'', LF]\<rparr> \<and>
   files (snd (fix_date_parsing ''m.js''
       \<lparr>files = [''m.js'' \<mapsto> \<lparr>readable = True, writable = True,
                    content_of = Text [CHR ''a'', LF, CHR ''b'', LF]\<rparr>],
        stdout = [], opens = []\<rparr>))
     = [''m.js'' \<mapsto> \<lparr>readable = True, writable = True,
                    content_of = Text [CHR ''a'', LF, CHR ''b'', LF]\<rparr>]"
proof -
  let ?t = "[CHR ''a'', CR, LF, CHR ''b'', LF]"
  let ?u = "[CHR ''a'', LF, CHR ''b'', LF]"
  let ?f = "\<lparr>readable = True, writable = True, content_of = Text ?t\<rparr>"
  let ?g = "\<lparr>readable = True, writable = True, content_of = Text ?u\<rparr>"
  let ?w = "\<lparr>files = [''m.js'' \<mapsto> ?f], stdout = [], opens = []\<rparr>"
  let ?v = "\<lparr>files = [''m.js'' \<mapsto> ?g], stdout = [], opens = []\<rparr>"
  have un: "universal_newlines ?t = ?u" "universal_newlines ?u = ?u"
    by (simp_all add: CR_def LF_def)
  have sp: "split ?u = [''a'', ''b'', '''']" by (simp add: LF_def)
  have h: "\<forall>l\<in>set (split (universal_newlines ?t)). \<not> contains match_literal l"
    "\<forall>l\<in>set (split (universal_newlines ?u)). \<not> contains match_literal l"
    unfolding un sp by (simp_all add: match_literal_def)
  have cr: "CR \<notin> set ?u" by (simp add: CR_def LF_def)
  have a: "files ?w ''m.js'' = Some ?f" "readable ?f" "writable ?f" "content_of ?f = Text ?t"
    by simp_all
  have b: "files ?v ''m.js'' = Some ?g" "readable ?g" "writable ?g" "content_of ?g = Text ?u"
    by simp_all
  from unmatched_file_unchanged[OF a h(1)]
  have 1: "fst (fix_date_parsing ''m.js'' ?w) = True"
    and "files (snd (fix_date_parsing ''m.js'' ?w))
         = (files ?w)(''m.js'' \<mapsto> ?f\<lparr>content_of := Text (universal_newlines ?t)\<rparr>)"
    by blast+
  then have 2: "files (snd (fix_date_parsing ''m.js'' ?w)) ''m.js'' = Some ?g"
    unfolding un(1) by simp
  from unmatched_file_unchanged[OF b h(2)] cr
  have "files (snd (fix_date_parsing ''m.js'' ?v)) = files ?v" by blast
  then have 3: "files (snd (fix_date_parsing ''m.js'' ?v)) = [''m.js'' \<mapsto> ?g]" by simp
  show ?thesis using 1 2 3 by blast
qed

text \<open>
  Claim C8 says that on any file a second run changes nothing. On a file of two lines that
  both are the searched statement the first run patches the first line and leaves the
  second, and the second run finds that one and patches it: the content after two runs
  differs from the content after one.
\<close>

theorem second_run_counterexample:
  "files (snd (fix_date_parsing ''m.js''
       \<lparr>files = [''m.js'' \<mapsto> \<lparr>readable = True, writable = True,
                    content_of = Text (match_literal @ [LF] @ match_literal)\<rparr>],
        stdout = [], opens = []\<rparr>)) ''m.js''
     = Some \<lparr>readable = True, writable = True,
             content_of = Text (join [insertion_comment, insertion_cleanup,
               replacement_literal, match_literal])\<rparr> \<and>
   files (snd (fix_date_parsing ''m.js'' (snd (fix_date_parsing ''m.js''
       \<lparr>files = [''m.js'' \<mapsto> \<lparr>readable = True, writable = True,
                    content_of = Text (match_literal @ [LF] @ match_literal)\<rparr>],
        stdout = [], opens = []\<rparr>)))) ''m.js''
     = Some \<lparr>readable = True, writable = True,
             content_of = Text (join [insertion_comment, insertion_cleanup,
               replacement_literal, insertion_comment, insertion_cleanup,
               replacement_literal])\<rparr> \<and>
   join [insertion_comment, insertion_cleanup, replacement_literal, match_literal]
     \<noteq> join [insertion_comment, insertion_cleanup, replacement_literal,
             insertion_comment, insertion_cleanup, replacement_literal]"
proof -
  let ?f = "\<lparr>readable = True, writable = True,
      content_of = Text (match_literal @ [LF] @ match_literal)\<rparr>"
  let ?w = "\<lparr>files = [''m.js'' \<mapsto> ?f], stdout = [], opens = []\<rparr>"
  let ?o1 = "[insertion_comment, insertion_cleanup, replacement_literal, match_literal]"
  let ?o2 = "[insertion_comment, insertion_cleanup, replacement_literal,
      insertion_comment, insertion_cleanup, replacement_literal]"
  let ?g = "\<lparr>readable = True, writable = True, content_of = Text (join ?o1)\<rparr>"
  let ?w1 = "snd (fix_date_parsing ''m.js'' ?w)"
  have mb: "LF \<notin> set match_literal" "CR \<notin> set match_literal"
    by (simp_all add: match_literal_def LF_def CR_def)
  have s1: "scan 0 [match_literal, match_literal]
      = Inr (take 0 [match_literal, match_literal] @ [insertion_comment, insertion_cleanup,
          replacement_literal] @ drop (Suc 0) [match_literal, match_literal])"
    by (rule scan_first_match) (simp_all add: contains_self)
  then have s1': "scan 0 [match_literal, match_literal] = Inr ?o1" by simp
  have c0: "content_of ?f = Text (join [match_literal, match_literal])" by simp
  have "files ?w1 = (files ?w)(''m.js'' \<mapsto> ?f\<lparr>content_of := Text (join ?o1)\<rparr>)"
    by (rule rewrite_clean_lines[OF _ _ _ c0 _ _ _ s1']) (simp_all add: mb)
  then have f1: "files ?w1 ''m.js'' = Some ?g" by simp
  have s2: "scan 0 ?o1 = Inr (take 3 ?o1 @ [insertion_comment, insertion_cleanup,
          replacement_literal] @ drop (Suc 3) ?o1)"
    by (rule scan_first_match)
      (simp_all add: contains_self literals_unmatched less_Suc_eq eval_nat_numeral)
  then have s2': "scan 0 ?o1 = Inr ?o2" by simp
  have c1: "content_of ?g = Text (join ?o1)" by simp
  have "files (snd (fix_date_parsing ''m.js'' ?w1))
      = (files ?w1)(''m.js'' \<mapsto> ?g\<lparr>content_of := Text (join ?o2)\<rparr>)"
    by (rule rewrite_clean_lines[OF f1 _ _ c1 _ _ _ s2']) (simp_all add: mb literals_no_break)
  then have 2: "files (snd (fix_date_parsing ''m.js'' ?w1)) ''m.js''
      = Some \<lparr>readable = True, writable = True, content_of = Text (join ?o2)\<rparr>" by simp
  have ne: "match_literal \<noteq> insertion_comment @ LF # insertion_cleanup @ LF # replacement_literal"
    by (simp add: match_literal_def insertion_comment_def)
  have 3: "join ?o1 \<noteq> join ?o2" using ne by simp
  show ?thesis using f1 2 3 by blast
qed

text \<open>
  Claim C8, amended: on a file in which at most one line contains the searched statement, a
  second run leaves the file system as the first run left it and returns what the first
  returned. None of the three lines of the patch contains the statement, so the patched
  site is not found again.
\<close>

theorem second_run_unchanged:
  assumes "files w p = Some f" and "content_of f = Text t"
    and "length (filter (contains match_literal) (split (universal_newlines t))) \<le> 1"
  shows "files (snd (fix_date_parsing p (snd (fix_date_parsing p w))))
           = files (snd (fix_date_parsing p w)) \<and>
         fst (fix_date_parsing p (snd (fix_date_parsing p w))) = fst (fix_date_parsing p w)"
proof (cases "fst (fix_date_parsing p w)")
  case False
  then have "files (snd (fix_date_parsing p w)) = files w"
    by (rule fix_date_parsing_fault_files)
  then show ?thesis using fix_date_parsing_files_only by blast
next
  case True
  then have acc: "readable f" "writable f"
    using assms(1) fix_date_parsing_true_files[of p w] by auto
  obtain out where out: "scan 0 (split (universal_newlines t)) = Inr out" "out \<noteq> []"
    "\<forall>l\<in>set out. LF \<notin> set l" "\<forall>l\<in>set out. CR \<notin> set l"
    "\<forall>l\<in>set out. \<not> contains match_literal l"
    using scan_result_clean[OF assms(3) universal_newlines_no_CR] by blast
  let ?g = "f\<lparr>content_of := Text (join out)\<rparr>"
  let ?w1 = "snd (fix_date_parsing p w)"
  have w1: "files ?w1 = (files w)(p \<mapsto> ?g)"
    by (rule fix_date_parsing_ok(2)[OF assms(1) acc assms(2) out(1)])
  then have g: "files ?w1 p = Some ?g" by simp
  have gacc: "readable ?g" "writable ?g" "content_of ?g = Text (join out)"
    using acc by simp_all
  have same: "scan 0 out = Inr out" using out(5) by (rule scan_unmatched)
  have "files (snd (fix_date_parsing p ?w1))
      = (files ?w1)(p \<mapsto> ?g\<lparr>content_of := Text (join out)\<rparr>)"
    by (rule rewrite_clean_lines[OF g gacc out(2,3,4) same])
  then have 1: "files (snd (fix_date_parsing p ?w1)) = files ?w1"
    using g by (simp add: map_upd_triv)
  have 2: "fst (fix_date_parsing p ?w1)"
    using g gacc fix_date_parsing_true_files[of p ?w1] by blast
  show ?thesis using 1 2 True by simp
qed

text \<open>The amended claim C8 at a file of two lines, the second being the statement.\<close>

theorem second_run_unchanged_witness:
  "files (snd (fix_date_parsing ''m.js'' (snd (fix_date_parsing ''m.js''
       \<lparr>files = [''m.js'' \<mapsto> \<lparr>readable = True, writable = True,
                    content_of = Text (''a'' @ [LF] @ match_literal)\<rparr>],
        stdout = [], opens = []\<rparr>))))
     = files (snd (fix_date_parsing ''m.js''
       \<lparr>files = [''m.js'' \<mapsto> \<lparr>readable = True, writable = True,
                    content_of = Text (''a'' @ [LF] @ match_literal)\<rparr>],
        stdout = [], opens = []\<rparr>)) \<and>
   files (snd (fix_date_parsing ''m.js''
       \<lparr>files = [''m.js'' \<mapsto> \<lparr>readable = True, writable = True,
                    content_of = Text (''a'' @ [LF] @ match_literal)\<rparr>],
        stdout = [], opens = []\<rparr>)) ''m.js''
     = Some \<lparr>readable = True, writable = True,
             content_of = Text (join [''a'', insertion_comment, insertion_cleanup,
               replacement_literal])\<rparr>"
proof -
  let ?t = "''a'' @ [LF] @ match_literal"
  let ?f = "\<lparr>readable = True, writable = True, content_of = Text ?t\<rparr>"
  let ?w = "\<lparr>files = [''m.js'' \<mapsto> ?f], stdout = [], opens = []\<rparr>"
  have mb: "LF \<notin> set match_literal" "CR \<notin> set match_literal"
    by (simp_all add: match_literal_def LF_def CR_def)
  have "CR \<notin> set ?t" using mb by (simp add: CR_def LF_def)
  then have un: "universal_newlines ?t = ?t" by (rule universal_newlines_id)
  have "split (''a'' @ LF # match_literal) = ''a'' # split match_literal"
    by (rule split_append_LF) (simp add: LF_def)
  then have sp: "split ?t = [''a'', match_literal]" using mb by (simp add: split_line)
  have na: "\<not> contains match_literal ''a''" by (simp add: match_literal_def)
  have h: "length (filter (contains match_literal) (split (universal_newlines ?t))) \<le> 1"
    unfolding un sp using na by (simp add: contains_self)
  have a: "files ?w ''m.js'' = Some ?f" "content_of ?f = Text ?t" by simp_all
  have "scan 0 [''a'', match_literal] = Inr (take 1 [''a'', match_literal]
      @ [insertion_comment, insertion_cleanup, replacement_literal]
      @ drop (Suc 1) [''a'', match_literal])"
    by (rule scan_first_match) (use na in \<open>simp_all add: contains_self\<close>)
  then have sc: "scan 0 (split (universal_newlines ?t))
      = Inr [''a'', insertion_comment, insertion_cleanup, replacement_literal]"
    unfolding un sp by simp
  have "files (snd (fix_date_parsing ''m.js'' ?w))
      = (files ?w)(''m.js'' \<mapsto> ?f\<lparr>content_of := Text (join [''a'', insertion_comment,
          insertion_cleanup, replacement_literal])\<rparr>)"
    by (rule fix_date_parsing_ok(2)[OF _ _ _ _ sc]) simp_all
  then have 2: "files (snd (fix_date_parsing ''m.js'' ?w)) ''m.js''
     = Some \<lparr>readable = True, writable = True,
             content_of = Text (join [''a'', insertion_comment, insertion_cleanup,
               replacement_literal])\<rparr>" by simp
  show ?thesis using second_run_unchanged[OF a h] 2 by blast
qed

text \<open>
  Claim C9: there is an unmatched input that ends in a line break and whose rewritten
  content differs from the original, so the written output does not always keep the
  trailing line break the file had. The file \<open>a\<close> followed by carriage return and line
  feed is one: no line contains the searched statement, the run succeeds, and the content
  written back is \<open>a\<close> followed by the line feed alone.
\<close>

theorem trailing_line_break_not_preserved:
  "\<exists>w p f t t'. files w p = Some f \<and> readable f \<and> writable f \<and> content_of f = Text t \<and>
     t \<noteq> [] \<and> last t = LF \<and>
     filter (contains match_literal) (split (universal_newlines t)) = [] \<and>
     fst (fix_date_parsing p w) \<and>
     files (snd (fix_date_parsing p w)) p = Some (f\<lparr>content_of := Text t'\<rparr>) \<and>
     t' \<noteq> t"
proof -
  let ?t = "[CHR ''a'', CR, LF]"
  let ?u = "[CHR ''a'', LF]"
  let ?f = "\<lparr>readable = True, writable = True, content_of = Text ?t\<rparr>"
  let ?w = "\<lparr>files = [''m.js'' \<mapsto> ?f], stdout = [], opens = []\<rparr>"
  have un: "universal_newlines ?t = ?u" by (simp add: CR_def LF_def)
  have sp: "split ?u = [''a'', '''']" by (simp add: LF_def)
  have nm: "filter (contains match_literal) [''a'', ''''] = []"
    by (simp add: match_literal_def)
  have "\<forall>l\<in>set [''a'', '''']. \<not> contains match_literal l"
    by (simp add: match_literal_def)
  then have "scan 0 [''a'', ''''] = Inr [''a'', '''']" by (rule scan_unmatched)
  then have sc: "scan 0 (split (universal_newlines ?t)) = Inr [''a'', '''']"
    unfolding un sp .
  have a: "files ?w ''m.js'' = Some ?f" "readable ?f" "writable ?f" "content_of ?f = Text ?t"
    by simp_all
  have 1: "fst (fix_date_parsing ''m.js'' ?w)"
    using fix_date_parsing_ok(1)[OF a sc] by simp
  have "files (snd (fix_date_parsing ''m.js'' ?w))
      = (files ?w)(''m.js'' \<mapsto> ?f\<lparr>content_of := Text (join [''a'', ''''])\<rparr>)"
    by (rule fix_date_parsing_ok(2)[OF a sc])
  then have 2: "files (snd (fix_date_parsing ''m.js'' ?w)) ''m.js''
      = Some (?f\<lparr>content_of := Text ?u\<rparr>)" by simp
  have 3: "?u \<noteq> ?t" by (simp add: CR_def LF_def)
  have 4: "?t \<noteq> [] \<and> last ?t = LF" by simp
  have 5: "filter (contains match_literal) (split (universal_newlines ?t)) = []"
    unfolding un sp by (rule nm)
  show ?thesis using a 1 2 3 4 5 by blast
qed

end
